theory Spec2Isabelle
  imports Main "HOL-Library.Word" "HOL-Library.AList"
begin

section \<open>The cascade lifecycle node of \<^verbatim>\<open>cascade_lifecycle_node.py\<close>\<close>

text \<open>
  The class \<^verbatim>\<open>CascadeLifecycleNode\<close> keeps three containers: the list
  \<^verbatim>\<open>_activators\<close> of the nodes that activate this one, the list
  \<^verbatim>\<open>_activations\<close> of the nodes this one activates, and the dictionary
  \<^verbatim>\<open>_activators_state\<close> from an activator's name to its last reported state.
  The methods mutate them in place; the model passes the node as a record and returns
  the updated record. A Python exception leaves the mutations made before it in place,
  so a raising call returns the error together with the node as it stands.
\<close>

subsection \<open>Values of the message packages\<close>

text \<open>
  The field \<^verbatim>\<open>state\<close> of a state message is a \<^verbatim>\<open>uint8\<close>. The constants
  \<^verbatim>\<open>lifecycle_msgs.msg.State.PRIMARY_STATE_*\<close> belong to the ROS 2 interface package
  \<^verbatim>\<open>lifecycle_msgs\<close>, where they are numbered 0 to 4.
\<close>

type_synonym lc_state = "8 word"

definition PRIMARY_STATE_UNKNOWN :: lc_state where
  "PRIMARY_STATE_UNKNOWN = 0"

definition PRIMARY_STATE_UNCONFIGURED :: lc_state where
  "PRIMARY_STATE_UNCONFIGURED = 1"

definition PRIMARY_STATE_INACTIVE :: lc_state where
  "PRIMARY_STATE_INACTIVE = 2"

definition PRIMARY_STATE_ACTIVE :: lc_state where
  "PRIMARY_STATE_ACTIVE = 3"

definition PRIMARY_STATE_FINALIZED :: lc_state where
  "PRIMARY_STATE_FINALIZED = 4"

lemmas primary_state_defs =
  PRIMARY_STATE_UNKNOWN_def PRIMARY_STATE_UNCONFIGURED_def PRIMARY_STATE_INACTIVE_def
  PRIMARY_STATE_ACTIVE_def PRIMARY_STATE_FINALIZED_def

text \<open>
  The field \<^verbatim>\<open>operation_type\<close> of an activation message is compared with the two
  constants \<^verbatim>\<open>Activation.ADD\<close> and \<^verbatim>\<open>Activation.REMOVE\<close>; any other value
  falls through the \<^verbatim>\<open>if\<close>/\<^verbatim>\<open>elif\<close> of the handler.
\<close>

datatype operation = ADD | REMOVE | OTHER_OPERATION

record activation_msg =
  operation_type :: operation
  activation :: string
  activator :: string

record state_msg =
  msg_node_name :: string
  msg_state :: lc_state

subsection \<open>The node\<close>

datatype transition = Configure | Activate | Deactivate

datatype py_error = KeyError | ValueError

text \<open>
  \<open>current_state\<close> is the label \<^verbatim>\<open>self._state_machine.current_state[1]\<close>.
  \<open>requests\<close> lists the calls of \<^verbatim>\<open>trigger_configure\<close>,
  \<^verbatim>\<open>trigger_activate\<close> and \<^verbatim>\<open>trigger_deactivate\<close> in the order they were made,
  \<open>activators_pub\<close> and \<open>states_pub\<close> the messages handed to the two publishers.
  The dictionary is an association list in insertion order, as a Python \<^verbatim>\<open>dict\<close>
  iterates.
\<close>

record node =
  node_name :: string
  activators :: "string list"
  activations :: "string list"
  activators_state :: "(string \<times> lc_state) list"
  current_state :: string
  requests :: "transition list"
  activators_pub :: "activation_msg list"
  states_pub :: "state_msg list"

datatype outcome = Returned node | Raised py_error node

fun node_of :: "outcome \<Rightarrow> node" where
  "node_of (Returned s) = s"
| "node_of (Raised e s) = s"

fun raised :: "outcome \<Rightarrow> py_error option" where
  "raised (Returned s) = None"
| "raised (Raised e s) = Some e"

text \<open>\<^verbatim>\<open>__init__\<close>: the three containers start empty.\<close>

definition init :: "string \<Rightarrow> string \<Rightarrow> node" where
  "init name label =
     \<lparr>node_name = name, activators = [], activations = [], activators_state = [],
      current_state = label, requests = [], activators_pub = [], states_pub = []\<rparr>"

subsection \<open>The host's lifecycle engine\<close>

text \<open>
  The transitions themselves are performed by \<^verbatim>\<open>rclpy\<close>'s \<^verbatim>\<open>LifecycleNode\<close>.
  The model takes the engine as a parameter \<open>host\<close>: the label of the state machine
  after a requested transition, given the label before it. A trigger records the
  request and lets the host move the label. What the host does besides (calling
  \<^verbatim>\<open>on_configure\<close> and its siblings, which publish the new state, or refusing a
  transition) is not part of the model; no property below depends on it.
\<close>

type_synonym host = "transition \<Rightarrow> string \<Rightarrow> string"

definition trigger :: "host \<Rightarrow> transition \<Rightarrow> node \<Rightarrow> node" where
  "trigger host t s =
     s\<lparr>requests := requests s @ [t], current_state := host t (current_state s)\<rparr>"

definition trigger_configure :: "host \<Rightarrow> node \<Rightarrow> node" where
  "trigger_configure host s = trigger host Configure s"

definition trigger_activate :: "host \<Rightarrow> node \<Rightarrow> node" where
  "trigger_activate host s = trigger host Activate s"

definition trigger_deactivate :: "host \<Rightarrow> node \<Rightarrow> node" where
  "trigger_deactivate host s = trigger host Deactivate s"

subsection \<open>\<^verbatim>\<open>update_state\<close>\<close>

text \<open>
  The loop runs over the keys of the dictionary and reads each key's value; both flags
  are accumulated in the same pass.
\<close>

definition parents :: "(string \<times> lc_state) list \<Rightarrow> bool \<times> bool" where
  "parents d =
     fold (\<lambda>activator (parent_inactive, parent_active).
             (parent_inactive \<or> map_of d activator = Some PRIMARY_STATE_INACTIVE,
              parent_active \<or> map_of d activator = Some PRIMARY_STATE_ACTIVE))
          (map fst d) (False, False)"

definition update_state :: "host \<Rightarrow> node \<Rightarrow> node" where
  "update_state host s =
     (let (parent_inactive, parent_active) = parents (activators_state s);
          cur = current_state s
      in if cur = ''unknown'' then
           (if parent_active \<or> parent_inactive then trigger_configure host s else s)
         else if cur = ''unconfigured'' then
           (if parent_active \<or> parent_inactive then trigger_configure host s else s)
         else if cur = ''inactive'' then
           (if parent_active then trigger_activate host s else s)
         else if cur = ''active'' then
           (if \<not> parent_active \<and> parent_inactive then trigger_deactivate host s else s)
         else s)"

subsection \<open>\<^verbatim>\<open>activations_callback\<close>\<close>

text \<open>
  In the \<^verbatim>\<open>REMOVE\<close> branch the lookup \<^verbatim>\<open>self._activators_state[msg.activator]\<close>
  raises \<^verbatim>\<open>KeyError\<close> on a missing key and \<^verbatim>\<open>self._activators.remove\<close> raises
  \<^verbatim>\<open>ValueError\<close> when the list does not hold the name.
\<close>

definition any_other_active :: "(string \<times> lc_state) list \<Rightarrow> bool" where
  "any_other_active d =
     fold (\<lambda>activator acc. acc \<or> map_of d activator = Some PRIMARY_STATE_ACTIVE)
          (map fst d) False"

definition activations_callback :: "host \<Rightarrow> node \<Rightarrow> activation_msg \<Rightarrow> outcome" where
  "activations_callback host s msg =
     (if operation_type msg = ADD then
        (if activation msg = node_name s then
           (let s1 = s\<lparr>activators := activators s @ [activator msg]\<rparr>
            in if activator msg \<notin> fst ` set (activators_state s1)
               then Returned (s1\<lparr>activators_state :=
                      AList.update (activator msg) PRIMARY_STATE_UNKNOWN (activators_state s1)\<rparr>)
               else Returned s1)
         else Returned s)
      else if operation_type msg = REMOVE then
        (if activation msg = node_name s \<and> activator msg \<notin> set (activators s) then
           (case map_of (activators_state s) (activator msg) of
              None \<Rightarrow> Raised KeyError s
            | Some remover_state \<Rightarrow>
                if activator msg \<notin> set (activators s) then Raised ValueError s
                else
                  (let s1 = s\<lparr>activators := remove1 (activator msg) (activators s)\<rparr>;
                       s2 = (if activator msg \<in> fst ` set (activators_state s1)
                             then s1\<lparr>activators_state :=
                                    AList.delete (activator msg) (activators_state s1)\<rparr>
                             else s1)
                   in if remover_state = PRIMARY_STATE_ACTIVE then
                        (if \<not> any_other_active (activators_state s2)
                         then Returned (trigger_deactivate host s2)
                         else Returned s2)
                      else Returned s2))
         else Returned s)
      else Returned s)"

subsection \<open>\<^verbatim>\<open>states_callback\<close>\<close>

definition states_callback :: "host \<Rightarrow> node \<Rightarrow> state_msg \<Rightarrow> node" where
  "states_callback host s msg =
     (if msg_node_name msg \<in> fst ` set (activators_state s) \<and> msg_node_name msg \<noteq> node_name s
      then (if map_of (activators_state s) (msg_node_name msg) \<noteq> Some (msg_state msg)
            then update_state host
                   (s\<lparr>activators_state :=
                        AList.update (msg_node_name msg) (msg_state msg) (activators_state s)\<rparr>)
            else s)
      else s)"

subsection \<open>\<^verbatim>\<open>add_activation\<close>, \<^verbatim>\<open>remove_activation\<close>, \<^verbatim>\<open>clear_activation\<close>\<close>

definition add_activation :: "node \<Rightarrow> string \<Rightarrow> node" where
  "add_activation s name =
     (if name \<noteq> node_name s
      then s\<lparr>activations := activations s @ [name],
             activators_pub := activators_pub s @
               [\<lparr>operation_type = ADD, activation = name, activator = node_name s\<rparr>]\<rparr>
      else s)"

text \<open>\<^verbatim>\<open>remove_activation\<close> appends to \<^verbatim>\<open>_activations\<close> too, as the source does.\<close>

definition remove_activation :: "node \<Rightarrow> string \<Rightarrow> node" where
  "remove_activation s name =
     (if name \<noteq> node_name s
      then s\<lparr>activations := activations s @ [name],
             activators_pub := activators_pub s @
               [\<lparr>operation_type = REMOVE, activation = name, activator = node_name s\<rparr>]\<rparr>
      else s)"

text \<open>
  The loop of \<^verbatim>\<open>clear_activation\<close> runs over \<^verbatim>\<open>self._activators\<close>, which
  \<^verbatim>\<open>remove_activation\<close> does not change.
\<close>

definition clear_activation :: "node \<Rightarrow> node" where
  "clear_activation s = fold (\<lambda>activator s'. remove_activation s' activator) (activators s) s"

subsection \<open>\<^verbatim>\<open>timer_callback\<close>\<close>

text \<open>
  The loop compares the label \<^verbatim>\<open>current_state\<close>, a Python \<^verbatim>\<open>str\<close>, with the
  \<^verbatim>\<open>uint8\<close> stored in the dictionary. Python's \<^verbatim>\<open>==\<close> between a \<^verbatim>\<open>str\<close>
  and an \<^verbatim>\<open>int\<close> is \<^verbatim>\<open>False\<close>.
\<close>

definition label_eq_state :: "string \<Rightarrow> lc_state \<Rightarrow> bool" where
  "label_eq_state label st = False"

text \<open>
  \<^verbatim>\<open>iter(self._activators)\<close> is a cursor \<open>i\<close> into the list as it is at the moment:
  \<^verbatim>\<open>next\<close> returns the element at the cursor and advances it, or raises
  \<^verbatim>\<open>StopIteration\<close> when the cursor has reached the length, which ends the loop.
  The list is changed under the iterator by \<^verbatim>\<open>self._activators.remove(node_name)\<close>
  (the first occurrence goes), and the \<^verbatim>\<open>else\<close> branch calls
  \<^verbatim>\<open>it.__next__()\<close>, which advances the cursor once more. \<open>visited\<close> collects the
  names bound to \<^verbatim>\<open>node_name\<close>, in order; it is the only part that is not in the
  source. \<^verbatim>\<open>KeyError\<close> is not caught by the \<^verbatim>\<open>except StopIteration\<close>.
\<close>

function timer_loop ::
  "host \<Rightarrow> string list \<Rightarrow> string \<Rightarrow> string \<Rightarrow> nat \<Rightarrow> string list \<Rightarrow> node
     \<Rightarrow> string list \<times> outcome" where
  "timer_loop host nodes ns cur i visited s =
     (if length (activators s) \<le> i then (visited, Returned s)
      else
        (let name = activators s ! i; visited1 = visited @ [name]
         in if ns @ name \<in> set nodes then
              (let s1 = s\<lparr>activators := remove1 name (activators s)\<rparr>
               in case map_of (activators_state s1) name of
                    None \<Rightarrow> (visited1, Raised KeyError s1)
                  | Some st \<Rightarrow>
                      (let s2 = (if label_eq_state cur st then update_state host s1 else s1)
                       in case map_of (activators_state s2) name of
                            None \<Rightarrow> (visited1, Raised KeyError s2)
                          | Some st' \<Rightarrow>
                              timer_loop host nodes ns cur (i + 1) visited1
                                (s2\<lparr>activators_state :=
                                      AList.delete name (activators_state s2)\<rparr>)))
            else if length (activators s) \<le> i + 1 then (visited1, Returned s)
            else timer_loop host nodes ns cur (i + 2) visited1 s))"
  by pat_completeness auto
termination
  by (relation "measure (\<lambda>(host, nodes, ns, cur, i, visited, s). length (activators s) - i)")
     (auto simp: label_eq_state_def length_remove1)

text \<open>
  The equation of the loop is recursive without a guard on the outside, so it is
  unfolded on request only.
\<close>

declare timer_loop.simps [simp del]

text \<open>
  \<open>nodes\<close> is the result of \<^verbatim>\<open>self.get_node_names()\<close> and \<open>namespace\<close> that of
  \<^verbatim>\<open>self.get_namespace()\<close>. The message keeps the default 0 of its \<^verbatim>\<open>uint8\<close>
  field when the label is none of the four.
\<close>

definition timer_callback :: "host \<Rightarrow> string list \<Rightarrow> string \<Rightarrow> node \<Rightarrow> outcome" where
  "timer_callback host nodes namespace s =
     (let cur = current_state s;
          ns = (if namespace \<noteq> ''/'' then namespace @ ''/'' else namespace)
      in case snd (timer_loop host nodes ns cur 0 [] s) of
           Raised e s1 \<Rightarrow> Raised e s1
         | Returned s1 \<Rightarrow>
             (let st = (if cur = ''unknown'' then PRIMARY_STATE_UNKNOWN
                        else if cur = ''unconfigured'' then PRIMARY_STATE_UNCONFIGURED
                        else if cur = ''inactive'' then PRIMARY_STATE_INACTIVE
                        else if cur = ''active'' then PRIMARY_STATE_ACTIVE
                        else 0);
                  msg = \<lparr>msg_node_name = node_name s1, msg_state = st\<rparr>
              in Returned (update_state host (s1\<lparr>states_pub := states_pub s1 @ [msg]\<rparr>))))"

subsection \<open>Predicates of the specification\<close>

text \<open>
  Section 4.2 of the specification: \<^verbatim>\<open>anyActive\<close> is "exists activator with state ==
  Active", \<^verbatim>\<open>anyInactive\<close> is "exists activator with state == Inactive", over the
  snapshot of the activators' states.
\<close>

definition anyActive :: "(string \<times> lc_state) list \<Rightarrow> bool" where
  "anyActive snapshot =
     (\<exists>activator \<in> fst ` set snapshot. map_of snapshot activator = Some PRIMARY_STATE_ACTIVE)"

definition anyInactive :: "(string \<times> lc_state) list \<Rightarrow> bool" where
  "anyInactive snapshot =
     (\<exists>activator \<in> fst ` set snapshot. map_of snapshot activator = Some PRIMARY_STATE_INACTIVE)"

text \<open>Every name with a record in the dictionary is in the list of activators.\<close>

definition records_tracked :: "node \<Rightarrow> bool" where
  "records_tracked s = (fst ` set (activators_state s) \<subseteq> set (activators s))"

subsection \<open>Concrete runs\<close>

text \<open>
  An instance of the host for the runs below: the three primary transitions of a ROS 2
  managed node, each from the one state that allows it.
\<close>

definition managed_node :: host where
  "managed_node t label =
     (if t = Configure \<and> label = ''unconfigured'' then ''inactive''
      else if t = Activate \<and> label = ''inactive'' then ''active''
      else if t = Deactivate \<and> label = ''active'' then ''inactive''
      else label)"

text \<open>
  The subscription hands the messages to \<^verbatim>\<open>activations_callback\<close> one after the
  other; an exception ends the run.
\<close>

fun deliver :: "host \<Rightarrow> node \<Rightarrow> activation_msg list \<Rightarrow> outcome" where
  "deliver host s [] = Returned s"
| "deliver host s (msg # msgs) =
     (case activations_callback host s msg of
        Returned s' \<Rightarrow> deliver host s' msgs
      | Raised e s' \<Rightarrow> Raised e s')"

definition add_msg :: "string \<Rightarrow> string \<Rightarrow> activation_msg" where
  "add_msg target act = \<lparr>operation_type = ADD, activation = target, activator = act\<rparr>"

definition remove_msg :: "string \<Rightarrow> string \<Rightarrow> activation_msg" where
  "remove_msg target act = \<lparr>operation_type = REMOVE, activation = target, activator = act\<rparr>"

definition reports :: "string \<Rightarrow> lc_state \<Rightarrow> state_msg" where
  "reports name st = \<lparr>msg_node_name = name, msg_state = st\<rparr>"

text \<open>The node \<open>a\<close> as constructed, before the host has configured it.\<close>

definition node_a :: node where
  "node_a = init ''a'' ''unconfigured''"

text \<open>The node \<open>a\<close>, active, with the one activator \<open>b\<close>, last reported active.\<close>

definition a_by_b :: node where
  "a_by_b = (init ''a'' ''active'')\<lparr>activators := [''b''],
       activators_state := [(''b'', PRIMARY_STATE_ACTIVE)]\<rparr>"

text \<open>The node \<open>a\<close>, active, with the activators \<open>b\<close> and \<open>c\<close>, both last reported active.\<close>

definition a_by_b_c :: node where
  "a_by_b_c = (init ''a'' ''active'')\<lparr>activators := [''b'', ''c''],
       activators_state := [(''b'', PRIMARY_STATE_ACTIVE), (''c'', PRIMARY_STATE_ACTIVE)]\<rparr>"

text \<open>The node \<open>a\<close> after the announcement that \<open>b\<close> activates it has arrived twice.\<close>

definition twice_added :: node where
  "twice_added = node_of (deliver managed_node node_a [add_msg ''a'' ''b'', add_msg ''a'' ''b''])"

lemmas run_defs = init_def add_msg_def remove_msg_def reports_def node_a_def a_by_b_def
  a_by_b_c_def twice_added_def activations_callback_def primary_state_defs label_eq_state_def
  timer_callback_def timer_loop.simps update_state_def parents_def any_other_active_def
  trigger_def trigger_configure_def trigger_activate_def trigger_deactivate_def
  managed_node_def states_callback_def add_activation_def remove_activation_def
  clear_activation_def Let_def

section \<open>Properties\<close>

subsection \<open>Dictionary and list facts\<close>

lemma update_new_key: "k \<notin> fst ` set d \<Longrightarrow> AList.update k v d = d @ [(k, v)]"
  by (induction d) auto

lemma keys_update: "fst ` set (AList.update k v d) = insert k (fst ` set d)"
  by (induction d) auto

lemma keys_delete: "fst ` set (AList.delete k d) = fst ` set d - {k}"
  by (induction d) auto

lemma set_remove1_keeps: "x \<in> set xs \<Longrightarrow> x \<noteq> y \<Longrightarrow> x \<in> set (remove1 y xs)"
  by (induction xs) auto

subsection \<open>The decision of \<^verbatim>\<open>update_state\<close>\<close>

lemma fold_flags:
  "fold (\<lambda>activator (parent_inactive, parent_active).
             (parent_inactive \<or> map_of d activator = Some PRIMARY_STATE_INACTIVE,
              parent_active \<or> map_of d activator = Some PRIMARY_STATE_ACTIVE)) ks (p, q) =
   (p \<or> (\<exists>k \<in> set ks. map_of d k = Some PRIMARY_STATE_INACTIVE),
    q \<or> (\<exists>k \<in> set ks. map_of d k = Some PRIMARY_STATE_ACTIVE))"
  by (induction ks arbitrary: p q) auto

lemma parents_flags: "parents d = (anyInactive d, anyActive d)"
  by (simp add: parents_def fold_flags anyInactive_def anyActive_def)

lemma parents_empty: "parents [] = (False, False)"
  by (simp add: parents_def)

lemma requests_trigger: "requests (trigger host t s) = requests s @ [t]"
  by (simp add: trigger_def)

lemma update_state_registry:
  "activators (update_state host s) = activators s \<and>
   activators_state (update_state host s) = activators_state s"
  by (simp add: update_state_def Let_def trigger_def trigger_configure_def
      trigger_activate_def trigger_deactivate_def split: prod.splits)

lemma update_state_no_records: "activators_state s = [] \<Longrightarrow> update_state host s = s"
  by (simp add: update_state_def parents_empty Let_def)

text \<open>
  C6. The decision of \<^verbatim>\<open>update_state\<close>, from the current label and the snapshot of the
  activators' states: it requests configure when the label is unconfigured or unknown and
  some activator is active or inactive; activate when the label is inactive and some
  activator is active; deactivate when the label is active, no activator is active and
  some activator is inactive; and nothing in every other case.
\<close>

theorem update_state_decision:
  "requests (update_state host s) = requests s @
     (if (current_state s = ''unconfigured'' \<or> current_state s = ''unknown'')
         \<and> (anyActive (activators_state s) \<or> anyInactive (activators_state s))
      then [Configure]
      else if current_state s = ''inactive'' \<and> anyActive (activators_state s)
      then [Activate]
      else if current_state s = ''active'' \<and> \<not> anyActive (activators_state s)
              \<and> anyInactive (activators_state s)
      then [Deactivate]
      else [])"
  by (simp add: update_state_def Let_def parents_flags requests_trigger
      trigger_configure_def trigger_activate_def trigger_deactivate_def)

theorem update_state_decision_witness:
  "requests (update_state managed_node a_by_b) = []
   \<and> requests (update_state managed_node (a_by_b\<lparr>current_state := ''inactive''\<rparr>)) = [Activate]
   \<and> requests (update_state managed_node (a_by_b\<lparr>current_state := ''unconfigured''\<rparr>))
       = [Configure]"
  using update_state_decision [of managed_node a_by_b]
    update_state_decision [of managed_node "a_by_b\<lparr>current_state := ''inactive''\<rparr>"]
    update_state_decision [of managed_node "a_by_b\<lparr>current_state := ''unconfigured''\<rparr>"]
  by (simp add: a_by_b_def init_def anyActive_def anyInactive_def primary_state_defs)

subsection \<open>Inbound relationship messages\<close>

text \<open>
  The state \<open>a_by_b\<close> is the registry and label that \<open>a\<close> has after the announcement
  that \<open>b\<close> activates it and \<open>b\<close>'s reports of being inactive, then active.
\<close>

lemma a_by_b_reached:
  "activators (states_callback managed_node (states_callback managed_node
      (node_of (activations_callback managed_node node_a (add_msg ''a'' ''b'')))
      (reports ''b'' PRIMARY_STATE_INACTIVE)) (reports ''b'' PRIMARY_STATE_ACTIVE))
     = activators a_by_b
   \<and> activators_state (states_callback managed_node (states_callback managed_node
      (node_of (activations_callback managed_node node_a (add_msg ''a'' ''b'')))
      (reports ''b'' PRIMARY_STATE_INACTIVE)) (reports ''b'' PRIMARY_STATE_ACTIVE))
     = activators_state a_by_b
   \<and> current_state (states_callback managed_node (states_callback managed_node
      (node_of (activations_callback managed_node node_a (add_msg ''a'' ''b'')))
      (reports ''b'' PRIMARY_STATE_INACTIVE)) (reports ''b'' PRIMARY_STATE_ACTIVE))
     = current_state a_by_b"
  by (simp add: run_defs)

text \<open>
  The guard of the \<^verbatim>\<open>REMOVE\<close> branch lets a message through only when the activator
  is not in the list. Inside, the lookup or the removal from the list then raises, so
  the branch never reaches its end: a \<^verbatim>\<open>REMOVE\<close> of an activator that is not in the
  list raises, a \<^verbatim>\<open>REMOVE\<close> of one that is in the list is ignored, and no message
  makes the handler request a transition.
\<close>

lemma remove_untracked_raises:
  assumes "operation_type msg = REMOVE" and "activation msg = node_name s"
    and "activator msg \<notin> set (activators s)"
  shows "raised (activations_callback host s msg) \<noteq> None
       \<and> node_of (activations_callback host s msg) = s"
  using assms by (simp add: activations_callback_def split: option.splits)

lemma remove_tracked_ignored:
  assumes "operation_type msg = REMOVE" and "activator msg \<in> set (activators s)"
  shows "activations_callback host s msg = Returned s"
  using assms by (simp add: activations_callback_def)

lemma activations_callback_requests:
  "requests (node_of (activations_callback host s msg)) = requests s"
  by (simp add: activations_callback_def Let_def split: option.splits)

text \<open>
  C2. A \<^verbatim>\<open>REMOVE\<close> whose target is this node and whose activator is not tracked
  should be a silent no-op. In the source it raises: on the freshly constructed node
  \<open>a\<close>, the message \<^verbatim>\<open>REMOVE\<close> (target \<open>a\<close>, activator \<open>b\<close>) ends in the
  \<^verbatim>\<open>KeyError\<close> of the lookup \<^verbatim>\<open>self._activators_state[msg.activator]\<close>.
\<close>

theorem remove_untracked_key_error:
  "activations_callback managed_node node_a (remove_msg ''a'' ''b'') = Raised KeyError node_a"
  by (simp add: run_defs)

text \<open>
  C3. A \<^verbatim>\<open>REMOVE\<close> of a tracked activator whose last state is active, with no other
  active activator left, should make the node request deactivate. In the source the
  guard stops the message: \<open>a\<close>, active and activated by the active \<open>b\<close> alone, handles
  \<^verbatim>\<open>REMOVE\<close> (target \<open>a\<close>, activator \<open>b\<close>) by doing nothing: \<open>b\<close> stays tracked and no
  transition is requested.
\<close>

theorem remove_last_active_ignored:
  "activations_callback managed_node a_by_b (remove_msg ''a'' ''b'') = Returned a_by_b
   \<and> activators a_by_b = [''b'']
   \<and> map_of (activators_state a_by_b) ''b'' = Some PRIMARY_STATE_ACTIVE
   \<and> current_state a_by_b = ''active''
   \<and> requests a_by_b = []"
  by (simp add: run_defs)

text \<open>
  C5. After any sequence of \<^verbatim>\<open>ADD\<close> and \<^verbatim>\<open>REMOVE\<close> for one pair of target and
  activator, the activator should be tracked exactly when the last unmatched operation
  is an \<^verbatim>\<open>ADD\<close>. In the source, \<^verbatim>\<open>ADD\<close> then \<^verbatim>\<open>REMOVE\<close> leaves \<open>b\<close> tracked, a
  \<^verbatim>\<open>REMOVE\<close> before any \<^verbatim>\<open>ADD\<close> raises \<^verbatim>\<open>KeyError\<close>, and a second \<^verbatim>\<open>ADD\<close>
  puts \<open>b\<close> into the list a second time.
\<close>

theorem add_remove_leaves_tracked:
  "activators (node_of (deliver managed_node node_a
       [add_msg ''a'' ''b'', remove_msg ''a'' ''b''])) = [''b'']
   \<and> activators_state (node_of (deliver managed_node node_a
       [add_msg ''a'' ''b'', remove_msg ''a'' ''b''])) = [(''b'', PRIMARY_STATE_UNKNOWN)]
   \<and> deliver managed_node node_a [remove_msg ''a'' ''b''] = Raised KeyError node_a
   \<and> activators (node_of (deliver managed_node node_a
       [add_msg ''a'' ''b'', add_msg ''a'' ''b''])) = [''b'', ''b'']"
  by (simp add: run_defs)

text \<open>
  C8. An inbound \<^verbatim>\<open>ADD\<close> whose target and activator are both this node should leave
  the registry unchanged. The handler has no such check: on the freshly constructed
  \<open>a\<close> the message adds \<open>a\<close> to the list and gives it the record unknown.
\<close>

theorem self_add_changes_registry:
  "activators (node_of (activations_callback managed_node node_a (add_msg ''a'' ''a'')))
     \<noteq> activators node_a
   \<and> activators_state (node_of (activations_callback managed_node node_a (add_msg ''a'' ''a'')))
     \<noteq> activators_state node_a"
  by (simp add: run_defs)

text \<open>
  C8, as the source has it. The check for the node's own name is on the sending side:
  \<^verbatim>\<open>add_activation\<close> with the node's own name publishes nothing and changes nothing,
  so a node never announces itself as its own activator. The inbound handler has no
  such check: an \<^verbatim>\<open>ADD\<close> whose target and activator are both this node, arriving
  while the node is not among its own activators, is recorded like any other: the name
  enters the list of activators once and, when it has no record, gets the record
  unknown. What a further such \<^verbatim>\<open>ADD\<close> does to a node that already tracks itself is
  left open here.
\<close>

theorem self_add_recorded_once:
  "add_activation s (node_name s) = s \<and>
   (node_name s \<notin> set (activators s) \<longrightarrow>
      activations_callback host s (add_msg (node_name s) (node_name s)) =
        Returned (s\<lparr>activators := activators s @ [node_name s],
                    activators_state :=
                      (if node_name s \<in> fst ` set (activators_state s) then activators_state s
                       else activators_state s @ [(node_name s, PRIMARY_STATE_UNKNOWN)])\<rparr>)
      \<and> count_list (activators (node_of
            (activations_callback host s (add_msg (node_name s) (node_name s))))) (node_name s) = 1)"
proof -
  have sender: "add_activation s (node_name s) = s"
    by (simp add: add_activation_def)
  have handler: "activations_callback host s (add_msg (node_name s) (node_name s)) =
        Returned (s\<lparr>activators := activators s @ [node_name s],
                    activators_state :=
                      (if node_name s \<in> fst ` set (activators_state s) then activators_state s
                       else activators_state s @ [(node_name s, PRIMARY_STATE_UNKNOWN)])\<rparr>)"
    by (simp add: activations_callback_def add_msg_def update_new_key)
  have once: "count_list (activators s @ [node_name s]) (node_name s) = 1"
    if "node_name s \<notin> set (activators s)"
    using that by (simp add: count_list_0_iff)
  from sender handler once show ?thesis by simp
qed

theorem self_add_recorded_once_witness:
  "node_name node_a \<notin> set (activators node_a) \<and>
   add_activation node_a ''a'' = node_a \<and>
   activations_callback managed_node node_a (add_msg ''a'' ''a'') =
     Returned (node_a\<lparr>activators := [''a''],
                 activators_state := [(''a'', PRIMARY_STATE_UNKNOWN)]\<rparr>)"
proof -
  have h: "node_name node_a \<notin> set (activators node_a)"
    by (simp add: node_a_def init_def)
  from self_add_recorded_once [of node_a managed_node] h
  show ?thesis by (simp add: node_a_def init_def)
qed

subsection \<open>Outgoing activations\<close>

text \<open>
  C7. \<^verbatim>\<open>clear_activation\<close> should announce \<^verbatim>\<open>REMOVE\<close> for exactly the targets this
  node has added and not removed. The source runs over \<^verbatim>\<open>_activators\<close>, the nodes that
  activate this one, and \<^verbatim>\<open>remove_activation\<close> appends to \<^verbatim>\<open>_activations\<close> instead
  of taking the target out. After \<open>a\<close> has added \<open>b\<close>, clearing publishes nothing more
  than the \<^verbatim>\<open>ADD\<close>; and \<open>a\<close>, activated by \<open>b\<close> and with no outgoing activation,
  publishes a \<^verbatim>\<open>REMOVE\<close> for the target \<open>b\<close>.
\<close>

theorem clear_activation_wrong_list:
  "activations (add_activation node_a ''b'') = [''b'']
   \<and> activators_pub (clear_activation (add_activation node_a ''b'')) = [add_msg ''b'' ''a'']
   \<and> activations a_by_b = []
   \<and> activators_pub (clear_activation a_by_b) = [remove_msg ''b'' ''a'']
   \<and> activations (remove_activation (add_activation node_a ''b'') ''b'') = [''b'', ''b'']"
  by (simp add: run_defs)

subsection \<open>The loop of \<^verbatim>\<open>timer_callback\<close>\<close>

text \<open>One pass of the loop goes one of five ways.\<close>

lemma timer_loop_stop:
  "length (activators s) \<le> i \<Longrightarrow> timer_loop host nodes ns cur i visited s = (visited, Returned s)"
  by (subst timer_loop.simps) simp

lemma timer_loop_live_raise:
  "i < length (activators s) \<Longrightarrow> ns @ activators s ! i \<in> set nodes \<Longrightarrow>
   map_of (activators_state s) (activators s ! i) = None \<Longrightarrow>
   timer_loop host nodes ns cur i visited s =
     (visited @ [activators s ! i],
      Raised KeyError (s\<lparr>activators := remove1 (activators s ! i) (activators s)\<rparr>))"
  by (subst timer_loop.simps) (simp add: Let_def)

lemma timer_loop_live:
  "i < length (activators s) \<Longrightarrow> ns @ activators s ! i \<in> set nodes \<Longrightarrow>
   map_of (activators_state s) (activators s ! i) = Some st \<Longrightarrow>
   timer_loop host nodes ns cur i visited s =
     timer_loop host nodes ns cur (i + 1) (visited @ [activators s ! i])
       (s\<lparr>activators := remove1 (activators s ! i) (activators s),
           activators_state := AList.delete (activators s ! i) (activators_state s)\<rparr>)"
  by (subst timer_loop.simps) (simp add: Let_def label_eq_state_def)

lemma timer_loop_skip_stop:
  "i < length (activators s) \<Longrightarrow> ns @ activators s ! i \<notin> set nodes \<Longrightarrow>
   length (activators s) \<le> i + 1 \<Longrightarrow>
   timer_loop host nodes ns cur i visited s = (visited @ [activators s ! i], Returned s)"
  by (subst timer_loop.simps) (simp add: Let_def)

lemma timer_loop_skip:
  "i < length (activators s) \<Longrightarrow> ns @ activators s ! i \<notin> set nodes \<Longrightarrow>
   i + 1 < length (activators s) \<Longrightarrow>
   timer_loop host nodes ns cur i visited s =
     timer_loop host nodes ns cur (i + 2) (visited @ [activators s ! i]) s"
  by (subst timer_loop.simps) (simp add: Let_def)

text \<open>An induction rule that follows the five ways one pass of the loop can go.\<close>

lemma timer_loop_cases_induct [case_names stop live_raise live skip_stop skip]:
  assumes stop: "\<And>i visited s. length (activators s) \<le> i \<Longrightarrow> P i visited s"
    and live_raise: "\<And>i visited s. i < length (activators s) \<Longrightarrow>
          ns @ activators s ! i \<in> set nodes \<Longrightarrow>
          map_of (activators_state s) (activators s ! i) = None \<Longrightarrow> P i visited s"
    and live: "\<And>i visited s st. i < length (activators s) \<Longrightarrow>
          ns @ activators s ! i \<in> set nodes \<Longrightarrow>
          map_of (activators_state s) (activators s ! i) = Some st \<Longrightarrow>
          P (i + 1) (visited @ [activators s ! i])
            (s\<lparr>activators := remove1 (activators s ! i) (activators s),
                activators_state := AList.delete (activators s ! i) (activators_state s)\<rparr>) \<Longrightarrow>
          P i visited s"
    and skip_stop: "\<And>i visited s. i < length (activators s) \<Longrightarrow>
          ns @ activators s ! i \<notin> set nodes \<Longrightarrow> length (activators s) \<le> i + 1 \<Longrightarrow>
          P i visited s"
    and skip: "\<And>i visited s. i < length (activators s) \<Longrightarrow>
          ns @ activators s ! i \<notin> set nodes \<Longrightarrow> i + 1 < length (activators s) \<Longrightarrow>
          P (i + 2) (visited @ [activators s ! i]) s \<Longrightarrow> P i visited s"
  shows "P i visited s"
proof (induction "length (activators s) - i" arbitrary: i visited s rule: less_induct)
  case less
  show ?case
  proof (cases "length (activators s) \<le> i")
    case True
    then show ?thesis by (rule stop)
  next
    case False
    then have lt: "i < length (activators s)" by simp
    show ?thesis
    proof (cases "ns @ activators s ! i \<in> set nodes")
      case True
      show ?thesis
      proof (cases "map_of (activators_state s) (activators s ! i)")
        case None
        with lt True show ?thesis by (rule live_raise)
      next
        case (Some st)
        have "activators s ! i \<in> set (activators s)" using lt by simp
        then have "length (remove1 (activators s ! i) (activators s)) - (i + 1)
                   < length (activators s) - i"
          using lt by (simp add: length_remove1)
        then have "P (i + 1) (visited @ [activators s ! i])
            (s\<lparr>activators := remove1 (activators s ! i) (activators s),
                activators_state := AList.delete (activators s ! i) (activators_state s)\<rparr>)"
          by (intro less) simp
        with lt True Some show ?thesis by (rule live)
      qed
    next
      case notlive: False
      show ?thesis
      proof (cases "length (activators s) \<le> i + 1")
        case True
        with lt notlive show ?thesis by (rule skip_stop)
      next
        case False
        then have lt2: "i + 1 < length (activators s)" by simp
        then have "P (i + 2) (visited @ [activators s ! i]) s"
          by (intro less) simp
        with lt notlive lt2 show ?thesis by (rule skip)
      qed
    qed
  qed
qed

lemma timer_loop_requests:
  "requests (node_of (snd (timer_loop host nodes ns cur i visited s))) = requests s"
proof (induction i visited s rule: timer_loop_cases_induct [where ns = ns and nodes = nodes])
  case (stop i visited s)
  then show ?case by (simp add: timer_loop_stop)
next
  case (live_raise i visited s)
  then show ?case by (simp add: timer_loop_live_raise)
next
  case (live i visited s st)
  then show ?case by (simp add: timer_loop_live)
next
  case (skip_stop i visited s)
  then show ?case by (simp add: timer_loop_skip_stop)
next
  case (skip i visited s)
  then show ?case by (simp add: timer_loop_skip)
qed

lemma timer_loop_no_records:
  "activators_state s = [] \<Longrightarrow>
   activators_state (node_of (snd (timer_loop host nodes ns cur i visited s))) = []"
proof (induction i visited s rule: timer_loop_cases_induct [where ns = ns and nodes = nodes])
  case (stop i visited s)
  then show ?case by (simp add: timer_loop_stop)
next
  case (live_raise i visited s)
  then show ?case by (simp add: timer_loop_live_raise)
next
  case (live i visited s st)
  then show ?case by simp
next
  case (skip_stop i visited s)
  then show ?case by (simp add: timer_loop_skip_stop)
next
  case (skip i visited s)
  then show ?case by (simp add: timer_loop_skip)
qed

text \<open>
  C1. A tick should remove exactly the tracked activators that are absent from the
  live set and leave the others untouched. The source tests \<^verbatim>\<open>ns + node_name in
  nodes\<close> and removes in that branch: with \<open>b\<close> tracked and alive (\<^verbatim>\<open>/b\<close> among the live
  names) the tick drops \<open>b\<close> and its record; with \<open>b\<close> tracked and no node alive, \<open>b\<close>
  and its record stay.
\<close>

theorem timer_callback_drops_live_keeps_dead:
  "activators (node_of (timer_callback managed_node [''/a'', ''/b''] ''/'' a_by_b)) = []
   \<and> activators_state (node_of (timer_callback managed_node [''/a'', ''/b''] ''/'' a_by_b)) = []
   \<and> activators (node_of (timer_callback managed_node [''/a''] ''/'' a_by_b)) = [''b'']
   \<and> activators_state (node_of (timer_callback managed_node [''/a''] ''/'' a_by_b))
       = [(''b'', PRIMARY_STATE_ACTIVE)]"
  by (simp add: run_defs)

text \<open>
  C4. The loop of a tick should visit every activator tracked at its start exactly
  once. In the source the iterator runs over the list that the loop shortens, and the
  \<^verbatim>\<open>else\<close> branch advances it a second time: with \<open>b\<close> and \<open>c\<close> tracked, the loop
  binds \<^verbatim>\<open>node_name\<close> to \<open>b\<close> only, whether both are alive or none is; \<open>c\<close> is never
  looked at.
\<close>

theorem timer_loop_skips_second:
  "activators a_by_b_c = [''b'', ''c'']
   \<and> fst (timer_loop managed_node [''/a''] ''/'' ''active'' 0 [] a_by_b_c) = [''b'']
   \<and> fst (timer_loop managed_node [''/a'', ''/b'', ''/c''] ''/'' ''active'' 0 [] a_by_b_c) = [''b'']
   \<and> activators (node_of (snd
         (timer_loop managed_node [''/a'', ''/b'', ''/c''] ''/'' ''active'' 0 [] a_by_b_c))) = [''c'']"
  by (simp add: run_defs)

subsection \<open>Records and tracked activators\<close>

text \<open>
  Every handler keeps the records inside the list of activators; the node starts so.
  An empty list of activators therefore has an empty dictionary beside it.
\<close>

lemma records_tracked_init: "records_tracked (init name label)"
  by (simp add: records_tracked_def init_def)

lemma no_activators_no_records:
  "records_tracked s \<Longrightarrow> activators s = [] \<Longrightarrow> activators_state s = []"
  by (simp add: records_tracked_def)

lemma records_tracked_activations_callback:
  "records_tracked s \<Longrightarrow> records_tracked (node_of (activations_callback host s msg))"
  by (auto simp: records_tracked_def activations_callback_def Let_def keys_update
      split: option.splits)

lemma records_tracked_states_callback:
  "records_tracked s \<Longrightarrow> records_tracked (states_callback host s msg)"
  by (auto simp: records_tracked_def states_callback_def update_state_registry keys_update)

lemma records_tracked_drop:
  "records_tracked s \<Longrightarrow>
   records_tracked (s\<lparr>activators := remove1 name (activators s),
                      activators_state := AList.delete name (activators_state s)\<rparr>)"
  by (auto simp: records_tracked_def keys_delete intro!: set_remove1_keeps)

lemma records_tracked_drop_edge:
  assumes "records_tracked s" and "map_of (activators_state s) name = None"
  shows "records_tracked (s\<lparr>activators := remove1 name (activators s)\<rparr>)"
proof -
  have "name \<notin> fst ` set (activators_state s)"
    using assms(2) by (simp add: map_of_eq_None_iff)
  with assms(1) show ?thesis
    by (auto simp: records_tracked_def intro!: set_remove1_keeps)
qed

lemma records_tracked_timer_loop:
  "records_tracked s \<Longrightarrow>
   records_tracked (node_of (snd (timer_loop host nodes ns cur i visited s)))"
proof (induction i visited s rule: timer_loop_cases_induct [where ns = ns and nodes = nodes])
  case (stop i visited s)
  then show ?case by (simp add: timer_loop_stop)
next
  case (live_raise i visited s)
  then show ?case by (simp add: timer_loop_live_raise records_tracked_drop_edge)
next
  case (live i visited s st)
  then show ?case by (simp add: timer_loop_live records_tracked_drop)
next
  case (skip_stop i visited s)
  then show ?case by (simp add: timer_loop_skip_stop)
next
  case (skip i visited s)
  then show ?case by (simp add: timer_loop_skip)
qed

lemma records_tracked_timer_callback:
  assumes "records_tracked s"
  shows "records_tracked (node_of (timer_callback host nodes namespace s))"
proof -
  let ?ns = "if namespace \<noteq> ''/'' then namespace @ ''/'' else namespace"
  let ?r = "snd (timer_loop host nodes ?ns (current_state s) 0 [] s)"
  have r: "records_tracked (node_of ?r)" using assms by (rule records_tracked_timer_loop)
  show ?thesis
  proof (cases ?r)
    case (Returned s1)
    with r show ?thesis
      by (simp add: timer_callback_def Let_def records_tracked_def update_state_registry)
  next
    case (Raised e s1)
    with r show ?thesis by (simp add: timer_callback_def Let_def)
  qed
qed

text \<open>
  C9. Every operation on the registry should keep a record for each tracked activator
  and remove a record together with its edge. An \<^verbatim>\<open>ADD\<close> appends to the list without
  looking whether the name is there, while the record is created once; the tick removes
  one occurrence from the list and the record with it. After two \<^verbatim>\<open>ADD\<close> of \<open>b\<close> and a
  tick that finds \<open>b\<close>, the list still holds \<open>b\<close> and the dictionary is empty; the next
  such tick raises \<^verbatim>\<open>KeyError\<close>.
\<close>

theorem tick_after_double_add_loses_record:
  "activators twice_added = [''b'', ''b'']
   \<and> activators_state twice_added = [(''b'', PRIMARY_STATE_UNKNOWN)]
   \<and> activators (node_of (timer_callback managed_node [''/a'', ''/b''] ''/'' twice_added)) = [''b'']
   \<and> activators_state (node_of (timer_callback managed_node [''/a'', ''/b''] ''/'' twice_added)) = []
   \<and> raised (timer_callback managed_node [''/a'', ''/b''] ''/''
        (node_of (timer_callback managed_node [''/a'', ''/b''] ''/'' twice_added))) = Some KeyError"
  by (simp add: run_defs)

subsection \<open>A node without activators\<close>

text \<open>
  C10. A node whose activator-state dictionary is empty never requests a transition:
  neither \<^verbatim>\<open>update_state\<close>, nor the handler of relationship messages (its
  \<^verbatim>\<open>REMOVE\<close> branch included), nor the handler of state messages, nor a tick adds a
  request of configure, activate or deactivate.
\<close>

theorem no_records_no_request:
  assumes "activators_state s = []"
  shows "requests (update_state host s) = requests s
       \<and> requests (node_of (activations_callback host s msg)) = requests s
       \<and> requests (states_callback host s smsg) = requests s
       \<and> requests (node_of (timer_callback host nodes namespace s)) = requests s"
proof -
  have a: "requests (update_state host s) = requests s"
    using assms by (simp add: update_state_no_records)
  have b: "requests (node_of (activations_callback host s msg)) = requests s"
    by (rule activations_callback_requests)
  have c: "requests (states_callback host s smsg) = requests s"
    using assms by (simp add: states_callback_def)
  have d: "requests (node_of (timer_callback host nodes namespace s)) = requests s"
  proof -
    let ?ns = "if namespace \<noteq> ''/'' then namespace @ ''/'' else namespace"
    let ?r = "snd (timer_loop host nodes ?ns (current_state s) 0 [] s)"
    have r1: "requests (node_of ?r) = requests s" by (rule timer_loop_requests)
    have r2: "activators_state (node_of ?r) = []" using assms by (rule timer_loop_no_records)
    show ?thesis
    proof (cases ?r)
      case (Returned s1)
      with r1 r2 show ?thesis
        by (simp add: timer_callback_def Let_def update_state_no_records)
    next
      case (Raised e s1)
      with r1 show ?thesis by (simp add: timer_callback_def Let_def)
    qed
  qed
  from a b c d show ?thesis by simp
qed

theorem no_records_no_request_witness:
  "activators_state node_a = []
   \<and> requests (update_state managed_node node_a) = requests node_a
   \<and> requests (node_of (activations_callback managed_node node_a (remove_msg ''a'' ''b'')))
       = requests node_a
   \<and> requests (states_callback managed_node node_a (reports ''b'' PRIMARY_STATE_ACTIVE))
       = requests node_a
   \<and> requests (node_of (timer_callback managed_node [''/a'', ''/b''] ''/'' node_a))
       = requests node_a"
proof -
  have h: "activators_state node_a = []" by (simp add: node_a_def init_def)
  from no_records_no_request [OF h, of managed_node "remove_msg ''a'' ''b''"
      "reports ''b'' PRIMARY_STATE_ACTIVE" "[''/a'', ''/b'']" "''/''"] h
  show ?thesis by simp
qed

end
